theory Spec2Isabelle
  imports Main
begin

section \<open>Data model of the tic-tac-toe component\<close>

text \<open>
  The component keeps one \<^verbatim>\<open>GameState\<close> object in a React state hook. The TypeScript
  type \<^verbatim>\<open>Player = "X" | "O" | null\<close> is the datatype below: \<open>PX\<close> and \<open>PO\<close> are the
  strings \<^verbatim>\<open>"X"\<close> and \<^verbatim>\<open>"O"\<close>, \<open>Null\<close> is \<^verbatim>\<open>null\<close>. The fourth value \<open>Undef\<close> is what
  JavaScript yields when an array is read past its end or at a hole; the type checker does
  not see it, the run time does. Of the four values only \<open>PX\<close> and \<open>PO\<close> are truthy.
\<close>

datatype Player = PX | PO | Null | Undef

datatype GameMode = pvp | ai

text \<open>The type \<^verbatim>\<open>Player | "tie"\<close> of the field \<^verbatim>\<open>winner\<close> and of the result of \<^verbatim>\<open>checkWinner\<close>.\<close>

datatype Winner = P Player | Tie

text \<open>
  The score counters are JavaScript numbers that start at 0 and only ever grow by 1; they
  are modelled as natural numbers.
\<close>

record Scores =
  scoreX :: nat
  scoreO :: nat
  ties :: nat

record GameState =
  board :: "Player list"
  currentPlayer :: Player
  winner :: Winner
  gameMode :: GameMode
  scores :: Scores

definition truthy :: "Player \<Rightarrow> bool" where
  "truthy p = (p = PX \<or> p = PO)"

definition truthyW :: "Winner \<Rightarrow> bool" where
  "truthyW w = (case w of P p \<Rightarrow> truthy p | Tie \<Rightarrow> True)"

text \<open>Reading \<^verbatim>\<open>board[i]\<close>: past the end of the array the value is \<^verbatim>\<open>undefined\<close>.\<close>

definition at :: "Player list \<Rightarrow> nat \<Rightarrow> Player" where
  "at xs i = (if i < length xs then xs ! i else Undef)"

text \<open>
  Writing \<^verbatim>\<open>xs[i] = v\<close> on a fresh copy \<^verbatim>\<open>[...board]\<close>: inside the array the cell is
  replaced; past its end the array grows to length \<open>i + 1\<close> and the cells in between are
  holes, which read as \<^verbatim>\<open>undefined\<close> and which \<^verbatim>\<open>every\<close>, \<^verbatim>\<open>map\<close> and \<^verbatim>\<open>filter\<close> treat
  the way they treat an \<^verbatim>\<open>undefined\<close> that is not \<^verbatim>\<open>null\<close>.
\<close>

definition set_at :: "Player list \<Rightarrow> nat \<Rightarrow> Player \<Rightarrow> Player list" where
  "set_at xs i v =
     (if i < length xs then xs[i := v]
      else xs @ replicate (i - length xs) Undef @ [v])"

definition WINNING_COMBINATIONS :: "(nat \<times> nat \<times> nat) list" where
  "WINNING_COMBINATIONS =
     [(0, 1, 2), (3, 4, 5), (6, 7, 8),
      (0, 3, 6), (1, 4, 7), (2, 5, 8),
      (0, 4, 8), (2, 4, 6)]"

definition initialState :: GameState where
  "initialState =
     \<lparr>board = replicate 9 Null, currentPlayer = PX, winner = P Null, gameMode = pvp,
      scores = \<lparr>scoreX = 0, scoreO = 0, ties = 0\<rparr>\<rparr>"

section \<open>The evaluator\<close>

text \<open>
  The \<^verbatim>\<open>for\<close> loop of \<^verbatim>\<open>checkWinner\<close> over the winning combinations, with its early
  \<^verbatim>\<open>return board[a]\<close>: \<open>Some p\<close> is that return, \<open>None\<close> is falling out of the loop.
  The parameter \<^verbatim>\<open>board\<close> is written \<open>bd\<close>, since \<open>board\<close> names the record field.
\<close>

fun checkLines :: "(nat \<times> nat \<times> nat) list \<Rightarrow> Player list \<Rightarrow> Player option" where
  "checkLines [] bd = None"
| "checkLines ((a, b, c) # rest) bd =
     (if truthy (at bd a) \<and> at bd a = at bd b \<and> at bd a = at bd c
      then Some (at bd a)
      else checkLines rest bd)"

definition checkWinner :: "Player list \<Rightarrow> Winner" where
  "checkWinner bd =
     (case checkLines WINNING_COMBINATIONS bd of
        Some p \<Rightarrow> P p
      | None \<Rightarrow> if list_all (\<lambda>cell. cell \<noteq> Null) bd then Tie else P Null)"

section \<open>Applying a move\<close>

text \<open>
  \<^verbatim>\<open>makeMove\<close> is a closure of one render: it reads the \<^verbatim>\<open>gameState\<close> of that render
  (the argument \<open>g\<close>) for its guard, for the new board, for the winner and for
  \<^verbatim>\<open>nextPlayer\<close>, and it hands React an updater that is applied to the state current at
  that moment (\<^verbatim>\<open>prev\<close>). \<open>None\<close> is the early \<^verbatim>\<open>return\<close>, where \<^verbatim>\<open>setGameState\<close> is not
  called; \<open>Some upd\<close> is the call \<^verbatim>\<open>setGameState(upd)\<close>. The parameter \<^verbatim>\<open>index\<close> is an
  array index: the component passes the indices of \<^verbatim>\<open>board.map\<close> and members of
  \<^verbatim>\<open>availableMoves\<close>.
\<close>

text \<open>
  The object \<^verbatim>\<open>{...prev.scores, [key]: prev.scores[key] + 1}\<close> with the computed key
  \<^verbatim>\<open>winner === "tie" ? "ties" : winner\<close>. It is built only under \<^verbatim>\<open>winner ?\<close>, that is
  for the three truthy winners; the last case is never evaluated.
\<close>

definition bump :: "Winner \<Rightarrow> Scores \<Rightarrow> Scores" where
  "bump w sc =
     (case w of
        Tie \<Rightarrow> sc\<lparr>ties := ties sc + 1\<rparr>
      | P PX \<Rightarrow> sc\<lparr>scoreX := scoreX sc + 1\<rparr>
      | P PO \<Rightarrow> sc\<lparr>scoreO := scoreO sc + 1\<rparr>
      | P _ \<Rightarrow> sc)"

definition makeMove :: "GameState \<Rightarrow> nat \<Rightarrow> (GameState \<Rightarrow> GameState) option" where
  "makeMove g index =
     (if truthy (at (board g) index) \<or> truthyW (winner g) then None
      else
        let newBoard = set_at (board g) index (currentPlayer g);
            w = checkWinner newBoard;
            nextPlayer = (if currentPlayer g = PX then PO else PX)
        in Some (\<lambda>prev.
             prev\<lparr>board := newBoard,
                  currentPlayer := (if truthyW w then currentPlayer prev else nextPlayer),
                  winner := w,
                  scores := (if truthyW w then bump w (scores prev) else scores prev)\<rparr>))"

text \<open>The state after a handler has run: unchanged when no updater was handed over.\<close>

definition run :: "(GameState \<Rightarrow> GameState) option \<Rightarrow> GameState \<Rightarrow> GameState" where
  "run u prev = (case u of None \<Rightarrow> prev | Some upd \<Rightarrow> upd prev)"

text \<open>
  A click on cell \<open>index\<close>: React has rendered the current state, so the closure's
  \<^verbatim>\<open>gameState\<close> and the updater's \<^verbatim>\<open>prev\<close> are the same state.
\<close>

definition click :: "nat \<Rightarrow> GameState \<Rightarrow> GameState" where
  "click index s = run (makeMove s index) s"

definition resetGame :: "GameState \<Rightarrow> GameState" where
  "resetGame prev = prev\<lparr>board := replicate 9 Null, currentPlayer := PX, winner := P Null\<rparr>"

definition resetScores :: "GameState \<Rightarrow> GameState" where
  "resetScores prev = prev\<lparr>scores := \<lparr>scoreX = 0, scoreO = 0, ties = 0\<rparr>\<rparr>"

definition switchGameMode :: "GameMode \<Rightarrow> GameState \<Rightarrow> GameState" where
  "switchGameMode mode prev =
     prev\<lparr>gameMode := mode, board := replicate 9 Null, currentPlayer := PX,
          winner := P Null\<rparr>"

section \<open>The automated opponent\<close>

text \<open>
  \<^verbatim>\<open>board.map((cell, index) => cell === null ? index : null).filter(index => index !== null)\<close>:
  the \<^verbatim>\<open>null\<close> entries of the intermediate array are \<open>None\<close>.
\<close>

definition availableMoves :: "Player list \<Rightarrow> nat list" where
  "availableMoves bd =
     map the
       (filter (\<lambda>index. index \<noteq> None)
         (map (\<lambda>(cell, index). if cell = Null then Some index else None)
           (zip bd [0..<length bd])))"

text \<open>
  \<^verbatim>\<open>getBestMove\<close> closes over the board of its render and over \<^verbatim>\<open>availableMoves\<close>. Each of
  its two \<^verbatim>\<open>for\<close> loops returns at the first move that passes its test, which is
  \<open>find\<close>. The argument \<open>rnd\<close> stands for the random source: \<open>rnd n\<close> is the value of
  \<^verbatim>\<open>Math.floor(Math.random() * n)\<close>, a number below \<open>n\<close> since \<^verbatim>\<open>Math.random()\<close> is
  below 1; the two indexed reads \<open>corners ! rnd \<dots>\<close> and \<open>moves ! rnd \<dots>\<close> are within range
  for such a source, and the theorems about them assume it. The marks of the two
  simulations are the constants \<^verbatim>\<open>"O"\<close> and \<^verbatim>\<open>"X"\<close> of the source; the function has no
  parameter for the mark of the opponent.
\<close>

definition getBestMove :: "(nat \<Rightarrow> nat) \<Rightarrow> Player list \<Rightarrow> nat list \<Rightarrow> nat" where
  "getBestMove rnd bd moves =
     (case find (\<lambda>move. checkWinner (set_at bd move PO) = P PO) moves of
        Some move \<Rightarrow> move
      | None \<Rightarrow>
          (case find (\<lambda>move. checkWinner (set_at bd move PX) = P PX) moves of
             Some move \<Rightarrow> move
           | None \<Rightarrow>
               if 4 \<in> set moves then 4
               else
                 let corners = filter (\<lambda>i. i \<in> set moves) [0, 2, 6, 8]
                 in if length corners > 0 then corners ! rnd (length corners)
                    else moves ! rnd (length moves)))"

text \<open>
  \<^verbatim>\<open>makeAIMove\<close> either returns at once (\<open>None\<close>) or hands \<^verbatim>\<open>setTimeout\<close> a callback.
  The callback belongs to the render \<open>g\<close> in which it was created: half a second later it
  computes the move from the board of \<open>g\<close> and calls the \<^verbatim>\<open>makeMove\<close> of \<open>g\<close>. Run with a
  random source, it yields what that \<^verbatim>\<open>makeMove\<close> yields.
\<close>

type_synonym callback = "(nat \<Rightarrow> nat) \<Rightarrow> (GameState \<Rightarrow> GameState) option"

definition makeAIMove :: "GameState \<Rightarrow> callback option" where
  "makeAIMove g =
     (if truthyW (winner g) \<or> currentPlayer g = PX then None
      else
        let moves = availableMoves (board g)
        in if length moves = 0 then None
           else Some (\<lambda>rnd.
                  let aiMove = getBestMove rnd (board g) moves
                  in makeMove g aiMove))"

text \<open>The body of the effect, run after a render with state \<open>g\<close>.\<close>

definition useEffect :: "GameState \<Rightarrow> callback option" where
  "useEffect g =
     (if gameMode g = ai \<and> currentPlayer g = PO \<and> \<not> truthyW (winner g) then makeAIMove g
      else None)"

section \<open>The component as a transition system\<close>

text \<open>
  What the user and the clock can do to the mounted component. The state of the world is
  the state held by React and the timers that are pending, oldest first. After a state
  change React renders again and runs the effect if one of its dependencies
  \<^verbatim>\<open>[currentPlayer, gameMode, winner]\<close> differs from the previous render. A timer that
  fires runs the callback it was given, against the state current at that moment.
\<close>

record World =
  current :: GameState
  timers :: "callback list"

datatype event =
  Click nat | NewGame | ResetScores | SwitchMode GameMode | TimerFires "nat \<Rightarrow> nat"

definition deps :: "GameState \<Rightarrow> Player \<times> GameMode \<times> Winner" where
  "deps g = (currentPlayer g, gameMode g, winner g)"

definition commit :: "World \<Rightarrow> GameState \<Rightarrow> World" where
  "commit w s' =
     (if deps s' = deps (current w) then w\<lparr>current := s'\<rparr>
      else
        (case useEffect s' of
           None \<Rightarrow> w\<lparr>current := s'\<rparr>
         | Some cb \<Rightarrow> \<lparr>current = s', timers = timers w @ [cb]\<rparr>))"

fun step :: "World \<Rightarrow> event \<Rightarrow> World" where
  "step w (Click index) = commit w (click index (current w))"
| "step w NewGame = commit w (resetGame (current w))"
| "step w ResetScores = commit w (resetScores (current w))"
| "step w (SwitchMode mode) = commit w (switchGameMode mode (current w))"
| "step w (TimerFires rnd) =
     (case timers w of
        [] \<Rightarrow> w
      | cb # rest \<Rightarrow> commit (w\<lparr>timers := rest\<rparr>) (run (cb rnd) (current w)))"

text \<open>On mount the state is the initial one; its mode is \<^verbatim>\<open>"pvp"\<close>, so the effect schedules nothing.\<close>

definition initialWorld :: World where
  "initialWorld = \<lparr>current = initialState, timers = []\<rparr>"

definition run_events :: "event list \<Rightarrow> World" where
  "run_events es = foldl step initialWorld es"

text \<open>
  The states the component can be in. A move is the updater of some \<^verbatim>\<open>makeMove\<close> applied
  to the current state: the \<^verbatim>\<open>makeMove\<close> of the current render for a click, that of an
  earlier render for a deferred move of the opponent.
\<close>

inductive reachable :: "GameState \<Rightarrow> bool" where
  initial: "reachable initialState"
| move: "reachable s \<Longrightarrow> reachable g \<Longrightarrow> makeMove g index = Some upd \<Longrightarrow> reachable (upd s)"
| new_game: "reachable s \<Longrightarrow> reachable (resetGame s)"
| reset_scores: "reachable s \<Longrightarrow> reachable (resetScores s)"
| set_mode: "reachable s \<Longrightarrow> reachable (switchGameMode mode s)"

text \<open>
  A run of clicks each of which is accepted and leaves the game in progress; \<open>None\<close> as
  soon as one click is rejected or ends the game.
\<close>

fun nonterminal_moves :: "nat list \<Rightarrow> GameState \<Rightarrow> GameState option" where
  "nonterminal_moves [] s = Some s"
| "nonterminal_moves (i # rest) s =
     (case makeMove s i of
        None \<Rightarrow> None
      | Some upd \<Rightarrow> if truthyW (winner (upd s)) then None else nonterminal_moves rest (upd s))"

section \<open>Notions of the specification\<close>

text \<open>
  A winning triple is fully occupied by a mark; the board is full; a cell is a legal
  move. The fields of a state hold values of their TypeScript types and the board has its
  nine cells.
\<close>

definition fully_occupied :: "Player \<Rightarrow> Player list \<Rightarrow> bool" where
  "fully_occupied m bd =
     (\<exists>(a, b, c) \<in> set WINNING_COMBINATIONS. bd ! a = m \<and> bd ! b = m \<and> bd ! c = m)"

definition is_full :: "Player list \<Rightarrow> bool" where
  "is_full bd = (\<forall>cell \<in> set bd. cell \<noteq> Null)"

definition legal :: "Player list \<Rightarrow> nat \<Rightarrow> bool" where
  "legal bd i = (i < length bd \<and> bd ! i = Null)"

definition well_typed :: "GameState \<Rightarrow> bool" where
  "well_typed s =
     (length (board s) = 9 \<and> Undef \<notin> set (board s) \<and> currentPlayer s \<noteq> Undef \<and>
      winner s \<noteq> P Undef)"

text \<open>
  For the opponent, which plays O: a legal move that wins at once, a legal move that takes
  the cell with which X would win at once, and the empty corners in the order 0, 2, 6, 8.
\<close>

definition wins_now :: "Player list \<Rightarrow> nat \<Rightarrow> bool" where
  "wins_now bd i = (legal bd i \<and> checkWinner (bd[i := PO]) = P PO)"

definition blocks_now :: "Player list \<Rightarrow> nat \<Rightarrow> bool" where
  "blocks_now bd i = (legal bd i \<and> checkWinner (bd[i := PX]) = P PX)"

definition legal_corners :: "Player list \<Rightarrow> nat list" where
  "legal_corners bd = filter (legal bd) [0, 2, 6, 8]"

section \<open>Example states\<close>

text \<open>X has just completed the top row; and the state one move before that.\<close>

definition won_by_X :: GameState where
  "won_by_X =
     \<lparr>board = [PX, PX, PX, PO, PO, Null, Null, Null, Null], currentPlayer = PX,
      winner = P PX, gameMode = pvp, scores = \<lparr>scoreX = 1, scoreO = 0, ties = 0\<rparr>\<rparr>"

definition X_to_win :: GameState where
  "X_to_win =
     \<lparr>board = [PX, PX, Null, PO, PO, Null, Null, Null, Null], currentPlayer = PX,
      winner = P Null, gameMode = pvp, scores = \<lparr>scoreX = 3, scoreO = 2, ties = 1\<rparr>\<rparr>"

text \<open>
  Boards on which it is O's turn, one for each branch of the opponent's choice: a win at
  2, a block at 2, the open center, the corners, and only the edges 1 and 7.
\<close>

definition board_win :: "Player list" where
  "board_win = [PO, PO, Null, PX, PX, Null, Null, Null, Null]"

definition board_block :: "Player list" where
  "board_block = [PX, PX, Null, PO, Null, Null, Null, Null, Null]"

definition board_center :: "Player list" where
  "board_center = [PX, Null, Null, Null, Null, Null, Null, Null, Null]"

definition board_corners :: "Player list" where
  "board_corners = [Null, Null, Null, Null, PX, Null, Null, Null, Null]"

definition board_edges :: "Player list" where
  "board_edges = [PX, Null, PO, PO, PX, PX, PX, Null, PO]"

text \<open>The state after the user has chosen the opponent and clicked cell 0.\<close>

definition O_to_move :: GameState where
  "O_to_move =
     \<lparr>board = board_center, currentPlayer = PO, winner = P Null, gameMode = ai,
      scores = \<lparr>scoreX = 0, scoreO = 0, ties = 0\<rparr>\<rparr>"

section \<open>Facts about the evaluator\<close>

lemma checkLines_None:
  "checkLines ts bd = None \<longleftrightarrow>
     (\<forall>(a, b, c) \<in> set ts. \<not> (truthy (at bd a) \<and> at bd a = at bd b \<and> at bd a = at bd c))"
  by (induction ts bd rule: checkLines.induct) auto

lemma checkLines_Some:
  "checkLines ts bd = Some p \<Longrightarrow>
     truthy p \<and> (\<exists>(a, b, c) \<in> set ts. at bd a = p \<and> at bd b = p \<and> at bd c = p)"
  by (induction ts bd rule: checkLines.induct) (auto split: if_splits)

lemma at9:
  "length bd = 9 \<Longrightarrow> (a, b, c) \<in> set WINNING_COMBINATIONS \<Longrightarrow>
     at bd a = bd ! a \<and> at bd b = bd ! b \<and> at bd c = bd ! c"
  by (auto simp: WINNING_COMBINATIONS_def at_def)

lemma checkWinner_cases:
  "checkWinner bd = P PX \<or> checkWinner bd = P PO \<or> checkWinner bd = Tie \<or>
   checkWinner bd = P Null"
proof (cases "checkLines WINNING_COMBINATIONS bd")
  case None
  then show ?thesis by (simp add: checkWinner_def)
next
  case (Some p)
  from checkLines_Some [OF Some] have "p = PX \<or> p = PO"
    by (simp add: truthy_def)
  with Some show ?thesis by (auto simp: checkWinner_def)
qed

lemma truthyW_checkWinner: "truthyW (checkWinner bd) \<longleftrightarrow> checkWinner bd \<noteq> P Null"
  using checkWinner_cases [of bd] by (auto simp: truthyW_def truthy_def)

lemma checkWinner_empty: "checkWinner (replicate 9 Null) = P Null"
  by code_simp

text \<open>
  C1, as the specification states it, asks for \<open>Won(m)\<close> exactly when some winning triple
  is fully occupied by \<open>m\<close>. On the board with the top row of X and the middle row of O a
  triple is fully occupied by O, and the evaluator answers X: its loop returns at the
  first complete triple of the list.
\<close>

theorem checkWinner_two_lines_counterexample:
  "\<not> (checkWinner [PX, PX, PX, PO, PO, PO, Null, Null, Null] = P PO \<longleftrightarrow>
      fully_occupied PO [PX, PX, PX, PO, PO, PO, Null, Null, Null])"
  by code_simp

text \<open>
  C1 (amended): for every 9-cell board on which X and O do not both hold a complete
  winning triple, \<open>checkWinner\<close> returns the mark \<open>m\<close> exactly when one of the eight
  triples is fully occupied by \<open>m\<close>; otherwise it returns the tie exactly when all nine
  cells are non-empty; otherwise it returns \<^verbatim>\<open>null\<close>.
\<close>

theorem checkWinner_outcome:
  assumes len: "length bd = 9"
    and one: "\<not> (fully_occupied PX bd \<and> fully_occupied PO bd)"
  shows "checkWinner bd =
           (if fully_occupied PX bd then P PX
            else if fully_occupied PO bd then P PO
            else if is_full bd then Tie else P Null)"
proof (cases "checkLines WINNING_COMBINATIONS bd")
  case None
  have no: "\<not> fully_occupied m bd" if "truthy m" for m
  proof
    assume "fully_occupied m bd"
    then obtain a b c where t: "(a, b, c) \<in> set WINNING_COMBINATIONS"
      and eq: "bd ! a = m" "bd ! b = m" "bd ! c = m"
      by (auto simp: fully_occupied_def)
    from at9 [OF len t] eq that
    have "truthy (at bd a) \<and> at bd a = at bd b \<and> at bd a = at bd c"
      by simp
    with None t show False
      unfolding checkLines_None by blast
  qed
  from no [of PX] no [of PO] None show ?thesis
    by (simp add: checkWinner_def truthy_def is_full_def list_all_iff)
next
  case (Some p)
  from checkLines_Some [OF Some] obtain a b c where tp: "truthy p"
    and t: "(a, b, c) \<in> set WINNING_COMBINATIONS"
    and eq: "at bd a = p" "at bd b = p" "at bd c = p"
    by auto
  have "bd ! a = p" "bd ! b = p" "bd ! c = p"
    using at9 [OF len t] eq by metis+
  with t have fo: "fully_occupied p bd"
    unfolding fully_occupied_def by (intro bexI [where x = "(a, b, c)"]) simp_all
  from tp have "p = PX \<or> p = PO" by (simp add: truthy_def)
  with fo one Some show ?thesis
    by (auto simp: checkWinner_def)
qed

theorem checkWinner_outcome_witness:
  "length [PX, PO, PX, PX, PO, PO, PO, PX, PX] = 9 \<and>
   \<not> (fully_occupied PX [PX, PO, PX, PX, PO, PO, PO, PX, PX] \<and>
      fully_occupied PO [PX, PO, PX, PX, PO, PO, PO, PX, PX]) \<and>
   checkWinner [PX, PO, PX, PX, PO, PO, PO, PX, PX] = Tie \<and>
   checkWinner [PX, PX, PX, PO, PO, Null, Null, Null, Null] = P PX \<and>
   checkWinner [PX, PX, Null, PO, PO, Null, Null, Null, Null] = P Null"
proof -
  have l1: "length [PX, PO, PX, PX, PO, PO, PO, PX, PX] = 9"
    and l2: "length [PX, PX, PX, PO, PO, Null, Null, Null, Null] = 9"
    and l3: "length [PX, PX, Null, PO, PO, Null, Null, Null, Null] = 9"
    by simp_all
  have o1: "\<not> (fully_occupied PX [PX, PO, PX, PX, PO, PO, PO, PX, PX] \<and>
               fully_occupied PO [PX, PO, PX, PX, PO, PO, PO, PX, PX])"
    and o2: "\<not> (fully_occupied PX [PX, PX, PX, PO, PO, Null, Null, Null, Null] \<and>
               fully_occupied PO [PX, PX, PX, PO, PO, Null, Null, Null, Null])"
    and o3: "\<not> (fully_occupied PX [PX, PX, Null, PO, PO, Null, Null, Null, Null] \<and>
               fully_occupied PO [PX, PX, Null, PO, PO, Null, Null, Null, Null])"
    by (simp_all add: fully_occupied_def WINNING_COMBINATIONS_def)
  show ?thesis
    using checkWinner_outcome [OF l1 o1] checkWinner_outcome [OF l2 o2]
      checkWinner_outcome [OF l3 o3] o1
    by (simp add: fully_occupied_def WINNING_COMBINATIONS_def is_full_def)
qed

section \<open>Facts about moves\<close>

lemma makeMove_None:
  "makeMove g i = None \<longleftrightarrow> truthy (at (board g) i) \<or> truthyW (winner g)"
  by (simp add: makeMove_def Let_def)

lemma makeMove_Some:
  assumes "makeMove g i = Some upd"
  shows "upd prev =
           prev\<lparr>board := set_at (board g) i (currentPlayer g),
                currentPlayer :=
                  (if truthyW (checkWinner (set_at (board g) i (currentPlayer g)))
                   then currentPlayer prev
                   else if currentPlayer g = PX then PO else PX),
                winner := checkWinner (set_at (board g) i (currentPlayer g)),
                scores :=
                  (if truthyW (checkWinner (set_at (board g) i (currentPlayer g)))
                   then bump (checkWinner (set_at (board g) i (currentPlayer g))) (scores prev)
                   else scores prev)\<rparr>"
  using assms by (auto simp: makeMove_def Let_def split: if_splits)

lemma click_rejected: "makeMove s i = None \<Longrightarrow> click i s = s"
  by (simp add: click_def run_def)

lemma click_accepted: "makeMove s i = Some upd \<Longrightarrow> click i s = upd s"
  by (simp add: click_def run_def)

section \<open>New game and mode switch\<close>

text \<open>
  C9: \<open>resetGame\<close> clears the board to nine empty cells, sets the current player to X and
  the winner to \<^verbatim>\<open>null\<close>, and leaves the scores and the mode as they were;
  \<open>switchGameMode\<close> is the same reset followed by setting the mode, so it too leaves the
  scores as they were. A state has no field besides these five.
\<close>

theorem resetGame_switchGameMode_frame:
  "resetGame s =
     \<lparr>board = replicate 9 Null, currentPlayer = PX, winner = P Null,
      gameMode = gameMode s, scores = scores s\<rparr> \<and>
   switchGameMode mode s = (resetGame s)\<lparr>gameMode := mode\<rparr> \<and>
   switchGameMode mode s =
     \<lparr>board = replicate 9 Null, currentPlayer = PX, winner = P Null,
      gameMode = mode, scores = scores s\<rparr>"
  by (simp add: resetGame_def switchGameMode_def)

section \<open>The winner field follows the board\<close>

text \<open>
  C7: in every state reachable from the initial state through moves, new games, score
  resets and mode switches, the stored winner is \<open>checkWinner\<close> of the stored board.
\<close>

theorem reachable_winner_is_checkWinner:
  "reachable s \<Longrightarrow> winner s = checkWinner (board s)"
proof (induction rule: reachable.induct)
  case initial
  show ?case by (simp add: initialState_def checkWinner_empty)
next
  case (move s g index upd)
  show ?case
    by (simp add: makeMove_Some [OF move.hyps(3)])
next
  case (new_game s)
  show ?case by (simp add: resetGame_def checkWinner_empty)
next
  case (reset_scores s)
  then show ?case by (simp add: resetScores_def)
next
  case (set_mode s mode)
  show ?case by (simp add: switchGameMode_def checkWinner_empty)
qed

theorem reachable_winner_is_checkWinner_witness:
  "reachable (click 4 initialState) \<and>
   winner (click 4 initialState) = checkWinner (board (click 4 initialState)) \<and>
   board (click 4 initialState) = [Null, Null, Null, Null, PX, Null, Null, Null, Null]"
proof -
  have m: "makeMove initialState 4 \<noteq> None"
    by (simp add: makeMove_None initialState_def at_def truthy_def truthyW_def)
  then obtain upd where u: "makeMove initialState 4 = Some upd"
    by blast
  have r: "reachable (click 4 initialState)"
    using reachable.move [OF reachable.initial reachable.initial u]
    by (simp add: click_accepted [OF u])
  have b: "board (click 4 initialState) = [Null, Null, Null, Null, PX, Null, Null, Null, Null]"
    by code_simp
  show ?thesis
    using r reachable_winner_is_checkWinner [OF r] b by simp
qed

section \<open>Rejected moves\<close>

lemma well_typed_cell:
  assumes "well_typed s" and "i < 9"
  shows "truthy (at (board s) i) \<longleftrightarrow> board s ! i \<noteq> Null"
proof -
  from assms have "board s ! i \<in> set (board s)" and "Undef \<notin> set (board s)"
    by (simp_all add: well_typed_def)
  then have "board s ! i \<noteq> Undef"
    by metis
  with assms show ?thesis
    by (cases "board s ! i") (simp_all add: well_typed_def at_def truthy_def)
qed

lemma well_typed_winner:
  assumes "well_typed s"
  shows "truthyW (winner s) \<longleftrightarrow> winner s \<noteq> P Null"
proof (cases "winner s")
  case (P p)
  with assms show ?thesis
    by (cases p) (simp_all add: well_typed_def truthyW_def truthy_def)
next
  case Tie
  then show ?thesis by (simp add: truthyW_def)
qed

lemma clicks_terminal: "truthyW (winner s) \<Longrightarrow> foldl (\<lambda>s j. click j s) s js = s"
  by (induction js) (simp_all add: click_rejected makeMove_None)

text \<open>
  Calls from the current render. For a state whose fields hold values of their types and
  an index in 0..8, the \<open>makeMove\<close> of the render of that state returns without an update
  exactly when the target cell is non-empty or the recorded winner is not \<^verbatim>\<open>null\<close>, and
  then the whole state is as before, scores included; a second click on the same occupied
  cell is rejected again; and once a winner or a tie is recorded every later click, on
  any cell, is rejected and changes nothing. The \<open>makeMove\<close> of an earlier render is not
  covered: see the section on deferred moves.
\<close>

theorem makeMove_rejection:
  assumes wt: "well_typed s" and i: "i < 9"
  shows "(makeMove s i = None \<longleftrightarrow> board s ! i \<noteq> Null \<or> winner s \<noteq> P Null) \<and>
         (makeMove s i = None \<longrightarrow> click i s = s) \<and>
         (board s ! i \<noteq> Null \<longrightarrow> makeMove (click i s) i = None \<and> click i (click i s) = s) \<and>
         (winner s \<noteq> P Null \<longrightarrow>
            (\<forall>j. makeMove s j = None) \<and> foldl (\<lambda>s j. click j s) s js = s)"
proof -
  have iff: "makeMove s i = None \<longleftrightarrow> board s ! i \<noteq> Null \<or> winner s \<noteq> P Null"
    by (simp add: makeMove_None well_typed_cell [OF wt i] well_typed_winner [OF wt])
  have same: "click i s = s" if "makeMove s i = None"
    using that by (rule click_rejected)
  have twice: "makeMove (click i s) i = None \<and> click i (click i s) = s" if "board s ! i \<noteq> Null"
  proof -
    from that iff have "makeMove s i = None" by simp
    then show ?thesis by (simp add: click_rejected)
  qed
  have over: "(\<forall>j. makeMove s j = None) \<and> foldl (\<lambda>s j. click j s) s js = s"
    if "winner s \<noteq> P Null"
  proof -
    from that have "truthyW (winner s)"
      by (simp add: well_typed_winner [OF wt])
    then show ?thesis
      by (simp add: makeMove_None clicks_terminal)
  qed
  from iff same twice over show ?thesis by blast
qed

theorem makeMove_rejection_witness:
  "well_typed won_by_X \<and> (0::nat) < 9 \<and> board won_by_X ! 0 \<noteq> Null \<and>
   winner won_by_X \<noteq> P Null \<and> makeMove won_by_X 0 = None \<and>
   click 0 won_by_X = won_by_X \<and> makeMove won_by_X 5 = None \<and>
   foldl (\<lambda>s j. click j s) won_by_X [0, 5, 6] = won_by_X"
proof -
  have wt: "well_typed won_by_X"
    by (simp add: well_typed_def won_by_X_def)
  have i: "(0::nat) < 9" by simp
  have c: "board won_by_X ! 0 \<noteq> Null" and w: "winner won_by_X \<noteq> P Null"
    by (simp_all add: won_by_X_def)
  from c w makeMove_rejection [OF wt i, of "[0, 5, 6]"]
  have "makeMove won_by_X 0 = None \<and> click 0 won_by_X = won_by_X \<and>
        makeMove won_by_X 5 = None \<and>
        foldl (\<lambda>s j. click j s) won_by_X [0, 5, 6] = won_by_X"
    by blast
  with wt i c w show ?thesis by blast
qed

section \<open>Scores\<close>



section \<open>Turns\<close>

lemma nonterminal_moves_turn:
  "nonterminal_moves js s = Some s' \<Longrightarrow>
     (currentPlayer s = PX \<longrightarrow> currentPlayer s' = (if even (length js) then PX else PO)) \<and>
     (currentPlayer s = PO \<longrightarrow> currentPlayer s' = (if even (length js) then PO else PX))"
proof (induction js arbitrary: s)
  case Nil
  then show ?case by simp
next
  case (Cons i rest)
  from Cons.prems obtain upd where u: "makeMove s i = Some upd"
    and nt: "\<not> truthyW (winner (upd s))" and r: "nonterminal_moves rest (upd s) = Some s'"
    by (auto split: option.splits if_splits)
  from nt have cp: "currentPlayer (upd s) = (if currentPlayer s = PX then PO else PX)"
    by (simp add: makeMove_Some [OF u])
  from Cons.IH [OF r] cp show ?case by auto
qed

text \<open>
  Clicks. When the mover is X or O and the \<open>makeMove\<close> of the current render accepts the
  move, the current player becomes the other mark if the game is still in progress, and
  stays the mover if the move ended the game. Hence, from a state with X to move, after
  any run of accepted clicks none of which ends the game, the current player is X after
  an even number of moves and O after an odd number. The \<open>makeMove\<close> of an earlier render
  is not covered: see the section on deferred moves.
\<close>

theorem makeMove_turn:
  "(makeMove s i \<noteq> None \<and> (currentPlayer s = PX \<or> currentPlayer s = PO) \<longrightarrow>
      (winner (click i s) = P Null \<longrightarrow>
         (currentPlayer s = PX \<longrightarrow> currentPlayer (click i s) = PO) \<and>
         (currentPlayer s = PO \<longrightarrow> currentPlayer (click i s) = PX)) \<and>
      (winner (click i s) \<noteq> P Null \<longrightarrow> currentPlayer (click i s) = currentPlayer s)) \<and>
   (currentPlayer s = PX \<and> nonterminal_moves js s = Some s' \<longrightarrow>
      currentPlayer s' = (if even (length js) then PX else PO))"
proof -
  have one: "(winner (click i s) = P Null \<longrightarrow>
         (currentPlayer s = PX \<longrightarrow> currentPlayer (click i s) = PO) \<and>
         (currentPlayer s = PO \<longrightarrow> currentPlayer (click i s) = PX)) \<and>
      (winner (click i s) \<noteq> P Null \<longrightarrow> currentPlayer (click i s) = currentPlayer s)"
    if "makeMove s i \<noteq> None"
  proof -
    from that obtain upd where u: "makeMove s i = Some upd" by blast
    show ?thesis
      by (auto simp: click_accepted [OF u] makeMove_Some [OF u] truthyW_checkWinner)
  qed
  from one nonterminal_moves_turn [of js s s'] show ?thesis by blast
qed

theorem makeMove_turn_witness:
  "makeMove initialState 0 \<noteq> None \<and> currentPlayer initialState = PX \<and>
   winner (click 0 initialState) = P Null \<and> currentPlayer (click 0 initialState) = PO \<and>
   makeMove X_to_win 2 \<noteq> None \<and> currentPlayer X_to_win = PX \<and>
   winner (click 2 X_to_win) = P PX \<and> currentPlayer (click 2 X_to_win) = PX \<and>
   nonterminal_moves [0, 4, 1] initialState \<noteq> None \<and>
   currentPlayer (the (nonterminal_moves [0, 4, 1] initialState)) = PO"
proof -
  have a: "makeMove initialState 0 \<noteq> None"
    by (simp add: makeMove_None initialState_def at_def truthy_def truthyW_def)
  have c: "currentPlayer initialState = PX"
    by (simp add: initialState_def)
  have w: "winner (click 0 initialState) = P Null"
    by code_simp
  have n: "nonterminal_moves [0, 4, 1] initialState \<noteq> None"
    by code_simp
  then obtain s' where s': "nonterminal_moves [0, 4, 1] initialState = Some s'"
    by blast
  have a': "makeMove X_to_win 2 \<noteq> None"
    by (simp add: makeMove_None X_to_win_def at_def truthy_def truthyW_def)
  have c': "currentPlayer X_to_win = PX"
    by (simp add: X_to_win_def)
  have w': "winner (click 2 X_to_win) = P PX"
    by code_simp
  show ?thesis
    using a c w n s' a' c' w' makeMove_turn [of initialState 0 "[0, 4, 1]" s']
      makeMove_turn [of X_to_win 2 "[]" X_to_win]
    by simp
qed

section \<open>Facts about the opponent's choice\<close>

lemma zip_upt: "zip xs [0..<length xs] = map (\<lambda>i. (xs ! i, i)) [0..<length xs]"
  by (rule nth_equalityI) simp_all

lemma availableMoves_filter:
  "availableMoves bd = filter (\<lambda>i. bd ! i = Null) [0..<length bd]"
proof -
  have "map the (filter (\<lambda>index. index \<noteq> None)
          (map (\<lambda>i. if bd ! i = Null then Some i else None) ns)) =
        filter (\<lambda>i. bd ! i = Null) ns" for ns :: "nat list"
    by (induction ns) simp_all
  then show ?thesis
    by (simp add: availableMoves_def zip_upt o_def)
qed

lemma set_availableMoves: "i \<in> set (availableMoves bd) \<longleftrightarrow> legal bd i"
  by (auto simp: availableMoves_filter legal_def)

lemma sorted_availableMoves: "sorted_wrt (<) (availableMoves bd)"
  by (simp add: availableMoves_filter sorted_wrt_filter)

lemma find_least:
  "sorted_wrt (<) xs \<Longrightarrow> find Q xs = Some (m::nat) \<Longrightarrow>
     m \<in> set xs \<and> Q m \<and> (\<forall>j \<in> set xs. j < m \<longrightarrow> \<not> Q j)"
  by (induction xs) (auto split: if_splits)

lemma find_availableMoves_Some:
  assumes "find Q (availableMoves bd) = Some m"
  shows "legal bd m \<and> Q m \<and> (\<forall>j<m. legal bd j \<longrightarrow> \<not> Q j)"
  using find_least [OF sorted_availableMoves assms]
  by (simp add: set_availableMoves)

lemma find_availableMoves_None:
  "find Q (availableMoves bd) = None \<longleftrightarrow> (\<forall>i. legal bd i \<longrightarrow> \<not> Q i)"
  by (auto simp: find_None_iff set_availableMoves)

lemma set_at_legal: "legal bd i \<Longrightarrow> set_at bd i v = bd[i := v]"
  by (simp add: set_at_def legal_def)

lemma find_win:
  "find (\<lambda>move. checkWinner (set_at bd move PO) = P PO) (availableMoves bd) =
   find (wins_now bd) (availableMoves bd)"
  by (rule find_cong) (auto simp: set_availableMoves wins_now_def set_at_legal)

lemma find_block:
  "find (\<lambda>move. checkWinner (set_at bd move PX) = P PX) (availableMoves bd) =
   find (blocks_now bd) (availableMoves bd)"
  by (rule find_cong) (auto simp: set_availableMoves blocks_now_def set_at_legal)

lemma corners_filter:
  "filter (\<lambda>i. i \<in> set (availableMoves bd)) [0, 2, 6, 8] = legal_corners bd"
  by (simp add: legal_corners_def set_availableMoves)

lemma getBestMove_unfold:
  "getBestMove rnd bd (availableMoves bd) =
     (case find (wins_now bd) (availableMoves bd) of
        Some m \<Rightarrow> m
      | None \<Rightarrow>
          (case find (blocks_now bd) (availableMoves bd) of
             Some m \<Rightarrow> m
           | None \<Rightarrow>
               if legal bd 4 then 4
               else if legal_corners bd \<noteq> []
                 then legal_corners bd ! rnd (length (legal_corners bd))
                 else availableMoves bd ! rnd (length (availableMoves bd))))"
  unfolding getBestMove_def find_win find_block corners_filter
  by (simp add: set_availableMoves Let_def split: option.splits)

lemma getBestMove_legal_general:
  assumes some: "legal bd i" and rnd: "\<And>n. 0 < n \<Longrightarrow> rnd n < n"
  shows "legal bd (getBestMove rnd bd (availableMoves bd))"
proof (cases "find (wins_now bd) (availableMoves bd)")
  case (Some m)
  with find_availableMoves_Some [OF Some] show ?thesis
    by (simp add: getBestMove_unfold)
next
  case None
  note nowin = None
  show ?thesis
  proof (cases "find (blocks_now bd) (availableMoves bd)")
    case (Some m)
    with nowin find_availableMoves_Some [OF Some] show ?thesis
      by (simp add: getBestMove_unfold)
  next
    case None
    have c: "legal bd (legal_corners bd ! rnd (length (legal_corners bd)))"
      if "legal_corners bd \<noteq> []"
    proof -
      from that rnd have "rnd (length (legal_corners bd)) < length (legal_corners bd)"
        by simp
      then have "legal_corners bd ! rnd (length (legal_corners bd)) \<in> set (legal_corners bd)"
        by (rule nth_mem)
      then show ?thesis by (auto simp: legal_corners_def)
    qed
    from some have "availableMoves bd \<noteq> []"
      using set_availableMoves [of i bd] by auto
    with rnd have "rnd (length (availableMoves bd)) < length (availableMoves bd)"
      by simp
    then have "availableMoves bd ! rnd (length (availableMoves bd)) \<in> set (availableMoves bd)"
      by (rule nth_mem)
    then have a: "legal bd (availableMoves bd ! rnd (length (availableMoves bd)))"
      by (simp add: set_availableMoves)
    from nowin None c a show ?thesis
      by (simp add: getBestMove_unfold)
  qed
qed

text \<open>
  C8: on a 9-cell board with at least one empty cell, and for every value the random
  source can deliver (a number below its bound), \<open>getBestMove\<close> returns an index in 0..8
  whose cell is empty. That the board has no winner is not needed.
\<close>

theorem getBestMove_empty_cell:
  assumes "length bd = 9" and "\<exists>i<9. bd ! i = Null" and "\<And>n. 0 < n \<Longrightarrow> rnd n < n"
  shows "getBestMove rnd bd (availableMoves bd) < 9 \<and>
         bd ! getBestMove rnd bd (availableMoves bd) = Null"
proof -
  from assms(1,2) obtain i where "legal bd i"
    by (auto simp: legal_def)
  from getBestMove_legal_general [OF this assms(3)] assms(1) show ?thesis
    by (simp add: legal_def)
qed

theorem getBestMove_empty_cell_witness:
  "length [PX, PO, PX, Null, PO, Null, PO, PX, PX] = 9 \<and>
   [PX, PO, PX, Null, PO, Null, PO, PX, PX] ! 3 = Null \<and>
   getBestMove (\<lambda>n. n - 1) [PX, PO, PX, Null, PO, Null, PO, PX, PX]
     (availableMoves [PX, PO, PX, Null, PO, Null, PO, PX, PX]) < 9 \<and>
   [PX, PO, PX, Null, PO, Null, PO, PX, PX] !
     getBestMove (\<lambda>n. n - 1) [PX, PO, PX, Null, PO, Null, PO, PX, PX]
       (availableMoves [PX, PO, PX, Null, PO, Null, PO, PX, PX]) = Null"
proof -
  have l: "length [PX, PO, PX, Null, PO, Null, PO, PX, PX] = 9"
    by simp
  have c: "[PX, PO, PX, Null, PO, Null, PO, PX, PX] ! 3 = Null"
    by simp
  then have e: "\<exists>i<9. [PX, PO, PX, Null, PO, Null, PO, PX, PX] ! i = Null"
    by (intro exI [of _ 3]) simp
  have r: "0 < n \<Longrightarrow> (\<lambda>n. n - 1) n < n" for n :: nat
    by simp
  show ?thesis
    using l c getBestMove_empty_cell [OF l e r] by simp
qed

text \<open>
  C2: with \<open>m\<close> the move \<open>getBestMove\<close> returns on a board, for the opponent O:
  if some legal move wins at once, \<open>m\<close> is the lowest such cell; else if some legal move
  takes the cell with which X would win at once, \<open>m\<close> is the lowest such cell; else if
  the center 4 is empty, \<open>m\<close> is 4; else if a corner is empty, \<open>m\<close> is the empty
  corner picked by the random source among the empty corners of 0, 2, 6, 8; else \<open>m\<close> is
  the legal cell picked by the random source among all legal cells. On the board
  \<^verbatim>\<open>[O,O,_,X,X,_,_,_,_]\<close> the move is 2, the win and not the block at 5; on
  \<^verbatim>\<open>[X,X,_,O,_,_,_,_,_]\<close> the move is 2, the block and not the open center.
\<close>

theorem getBestMove_priority:
  assumes rnd: "\<And>n. 0 < n \<Longrightarrow> rnd n < n"
  shows "((\<exists>i. wins_now bd i) \<longrightarrow>
            wins_now bd (getBestMove rnd bd (availableMoves bd)) \<and>
            (\<forall>j < getBestMove rnd bd (availableMoves bd). \<not> wins_now bd j)) \<and>
         (\<not> (\<exists>i. wins_now bd i) \<and> (\<exists>i. blocks_now bd i) \<longrightarrow>
            blocks_now bd (getBestMove rnd bd (availableMoves bd)) \<and>
            (\<forall>j < getBestMove rnd bd (availableMoves bd). \<not> blocks_now bd j)) \<and>
         (\<not> (\<exists>i. wins_now bd i) \<and> \<not> (\<exists>i. blocks_now bd i) \<and> legal bd 4 \<longrightarrow>
            getBestMove rnd bd (availableMoves bd) = 4) \<and>
         (\<not> (\<exists>i. wins_now bd i) \<and> \<not> (\<exists>i. blocks_now bd i) \<and> \<not> legal bd 4 \<and>
          legal_corners bd \<noteq> [] \<longrightarrow>
            getBestMove rnd bd (availableMoves bd) =
              legal_corners bd ! rnd (length (legal_corners bd)) \<and>
            getBestMove rnd bd (availableMoves bd) \<in> set (legal_corners bd)) \<and>
         (\<not> (\<exists>i. wins_now bd i) \<and> \<not> (\<exists>i. blocks_now bd i) \<and> \<not> legal bd 4 \<and>
          legal_corners bd = [] \<and> (\<exists>i. legal bd i) \<longrightarrow>
            getBestMove rnd bd (availableMoves bd) =
              availableMoves bd ! rnd (length (availableMoves bd)) \<and>
            legal bd (getBestMove rnd bd (availableMoves bd))) \<and>
         getBestMove rnd [PO, PO, Null, PX, PX, Null, Null, Null, Null]
           (availableMoves [PO, PO, Null, PX, PX, Null, Null, Null, Null]) = 2 \<and>
         getBestMove rnd [PX, PX, Null, PO, Null, Null, Null, Null, Null]
           (availableMoves [PX, PX, Null, PO, Null, Null, Null, Null, Null]) = 2"
proof -
  let ?m = "getBestMove rnd bd (availableMoves bd)"
  let ?fw = "find (wins_now bd) (availableMoves bd)"
  let ?fb = "find (blocks_now bd) (availableMoves bd)"
  have legal_win: "legal bd i" if "wins_now bd i" for i
    using that by (simp add: wins_now_def)
  have legal_block: "legal bd i" if "blocks_now bd i" for i
    using that by (simp add: blocks_now_def)
  have nowin: "?fw = None \<longleftrightarrow> \<not> (\<exists>i. wins_now bd i)"
    using legal_win by (auto simp: find_availableMoves_None)
  have noblock: "?fb = None \<longleftrightarrow> \<not> (\<exists>i. blocks_now bd i)"
    using legal_block by (auto simp: find_availableMoves_None)
  have win: "wins_now bd ?m \<and> (\<forall>j < ?m. \<not> wins_now bd j)" if "\<exists>i. wins_now bd i"
  proof -
    from that nowin obtain m where m: "?fw = Some m" by auto
    from find_availableMoves_Some [OF m] legal_win m show ?thesis
      by (auto simp: getBestMove_unfold)
  qed
  have block: "blocks_now bd ?m \<and> (\<forall>j < ?m. \<not> blocks_now bd j)"
    if "\<not> (\<exists>i. wins_now bd i)" and "\<exists>i. blocks_now bd i"
  proof -
    from that nowin have w: "?fw = None" by simp
    from that noblock obtain m where m: "?fb = Some m" by auto
    from find_availableMoves_Some [OF m] legal_block m w show ?thesis
      by (auto simp: getBestMove_unfold)
  qed
  have rest: "?m = (if legal bd 4 then 4
                    else if legal_corners bd \<noteq> []
                      then legal_corners bd ! rnd (length (legal_corners bd))
                      else availableMoves bd ! rnd (length (availableMoves bd)))"
    if "\<not> (\<exists>i. wins_now bd i)" and "\<not> (\<exists>i. blocks_now bd i)"
  proof -
    from that nowin noblock have "?fw = None" and "?fb = None" by simp_all
    then show ?thesis by (simp add: getBestMove_unfold)
  qed
  have corner: "legal_corners bd ! rnd (length (legal_corners bd)) \<in> set (legal_corners bd)"
    if "legal_corners bd \<noteq> []"
    using that rnd by simp
  have any: "legal bd ?m" if "\<exists>i. legal bd i"
    using that getBestMove_legal_general [OF _ rnd] by blast
  have ex1: "getBestMove rnd [PO, PO, Null, PX, PX, Null, Null, Null, Null]
           (availableMoves [PO, PO, Null, PX, PX, Null, Null, Null, Null]) = 2"
    by (simp add: getBestMove_def availableMoves_def checkWinner_def
        WINNING_COMBINATIONS_def at_def set_at_def truthy_def upt_rec)
  have ex2: "getBestMove rnd [PX, PX, Null, PO, Null, Null, Null, Null, Null]
           (availableMoves [PX, PX, Null, PO, Null, Null, Null, Null, Null]) = 2"
    by (simp add: getBestMove_def availableMoves_def checkWinner_def
        WINNING_COMBINATIONS_def at_def set_at_def truthy_def upt_rec)
  have c1: "(\<exists>i. wins_now bd i) \<longrightarrow> wins_now bd ?m \<and> (\<forall>j < ?m. \<not> wins_now bd j)"
    using win by (rule impI)
  have c2: "\<not> (\<exists>i. wins_now bd i) \<and> (\<exists>i. blocks_now bd i) \<longrightarrow>
            blocks_now bd ?m \<and> (\<forall>j < ?m. \<not> blocks_now bd j)"
  proof
    assume "\<not> (\<exists>i. wins_now bd i) \<and> (\<exists>i. blocks_now bd i)"
    then show "blocks_now bd ?m \<and> (\<forall>j < ?m. \<not> blocks_now bd j)"
      using block by blast
  qed
  have c3: "\<not> (\<exists>i. wins_now bd i) \<and> \<not> (\<exists>i. blocks_now bd i) \<and> legal bd 4 \<longrightarrow> ?m = 4"
  proof
    assume a: "\<not> (\<exists>i. wins_now bd i) \<and> \<not> (\<exists>i. blocks_now bd i) \<and> legal bd 4"
    then have "\<not> (\<exists>i. wins_now bd i)" and "\<not> (\<exists>i. blocks_now bd i)"
      by blast+
    from rest [OF this] a show "?m = 4" by simp
  qed
  have c4: "\<not> (\<exists>i. wins_now bd i) \<and> \<not> (\<exists>i. blocks_now bd i) \<and> \<not> legal bd 4 \<and>
            legal_corners bd \<noteq> [] \<longrightarrow>
            ?m = legal_corners bd ! rnd (length (legal_corners bd)) \<and>
            ?m \<in> set (legal_corners bd)"
  proof
    assume a: "\<not> (\<exists>i. wins_now bd i) \<and> \<not> (\<exists>i. blocks_now bd i) \<and> \<not> legal bd 4 \<and>
               legal_corners bd \<noteq> []"
    then have "\<not> (\<exists>i. wins_now bd i)" and "\<not> (\<exists>i. blocks_now bd i)"
      by blast+
    from rest [OF this] a corner
    show "?m = legal_corners bd ! rnd (length (legal_corners bd)) \<and>
          ?m \<in> set (legal_corners bd)"
      by simp
  qed
  have c5: "\<not> (\<exists>i. wins_now bd i) \<and> \<not> (\<exists>i. blocks_now bd i) \<and> \<not> legal bd 4 \<and>
            legal_corners bd = [] \<and> (\<exists>i. legal bd i) \<longrightarrow>
            ?m = availableMoves bd ! rnd (length (availableMoves bd)) \<and> legal bd ?m"
  proof
    assume a: "\<not> (\<exists>i. wins_now bd i) \<and> \<not> (\<exists>i. blocks_now bd i) \<and> \<not> legal bd 4 \<and>
               legal_corners bd = [] \<and> (\<exists>i. legal bd i)"
    then have "\<not> (\<exists>i. wins_now bd i)" and "\<not> (\<exists>i. blocks_now bd i)"
      by blast+
    from rest [OF this] a have "?m = availableMoves bd ! rnd (length (availableMoves bd))"
      by simp
    moreover from a have "legal bd ?m"
      using any by blast
    ultimately show "?m = availableMoves bd ! rnd (length (availableMoves bd)) \<and> legal bd ?m"
      by (rule conjI)
  qed
  show ?thesis
    by (intro conjI c1 c2 c3 c4 c5 ex1 ex2)
qed

lemma some_win: "(\<exists>i. wins_now bd i) \<longleftrightarrow> find (wins_now bd) (availableMoves bd) \<noteq> None"
  by (auto simp: find_availableMoves_None wins_now_def)

lemma some_block: "(\<exists>i. blocks_now bd i) \<longleftrightarrow> find (blocks_now bd) (availableMoves bd) \<noteq> None"
  by (auto simp: find_availableMoves_None blocks_now_def)

theorem getBestMove_priority_witness:
  "wins_now board_win 2 \<and>
   getBestMove (\<lambda>n. n - 1) board_win (availableMoves board_win) = 2 \<and>
   \<not> (\<exists>i. wins_now board_block i) \<and> blocks_now board_block 2 \<and>
   getBestMove (\<lambda>n. n - 1) board_block (availableMoves board_block) = 2 \<and>
   \<not> (\<exists>i. wins_now board_center i) \<and> \<not> (\<exists>i. blocks_now board_center i) \<and>
   legal board_center 4 \<and>
   getBestMove (\<lambda>n. n - 1) board_center (availableMoves board_center) = 4 \<and>
   \<not> (\<exists>i. wins_now board_corners i) \<and> \<not> (\<exists>i. blocks_now board_corners i) \<and>
   \<not> legal board_corners 4 \<and> legal_corners board_corners = [0, 2, 6, 8] \<and>
   getBestMove (\<lambda>n. n - 1) board_corners (availableMoves board_corners) = 8 \<and>
   \<not> (\<exists>i. wins_now board_edges i) \<and> \<not> (\<exists>i. blocks_now board_edges i) \<and>
   \<not> legal board_edges 4 \<and> legal_corners board_edges = [] \<and> legal board_edges 1 \<and>
   availableMoves board_edges = [1, 7] \<and>
   getBestMove (\<lambda>n. n - 1) board_edges (availableMoves board_edges) = 7"
proof -
  have r: "0 < n \<Longrightarrow> (\<lambda>n. n - 1) n < n" for n :: nat
    by simp
  have w1: "wins_now board_win 2"
    by code_simp
  have "find (wins_now board_block) (availableMoves board_block) = None"
    by code_simp
  then have w2: "\<not> (\<exists>i. wins_now board_block i)"
    by (simp add: some_win)
  have b2: "blocks_now board_block 2"
    by code_simp
  have "find (wins_now board_center) (availableMoves board_center) = None"
    and "find (blocks_now board_center) (availableMoves board_center) = None"
    by code_simp+
  then have w3: "\<not> (\<exists>i. wins_now board_center i)" and b3: "\<not> (\<exists>i. blocks_now board_center i)"
    by (simp_all add: some_win some_block)
  have l3: "legal board_center 4"
    by code_simp
  have "find (wins_now board_corners) (availableMoves board_corners) = None"
    and "find (blocks_now board_corners) (availableMoves board_corners) = None"
    by code_simp+
  then have w4: "\<not> (\<exists>i. wins_now board_corners i)" and b4: "\<not> (\<exists>i. blocks_now board_corners i)"
    by (simp_all add: some_win some_block)
  have l4: "\<not> legal board_corners 4" and c4: "legal_corners board_corners = [0, 2, 6, 8]"
    by code_simp+
  have "find (wins_now board_edges) (availableMoves board_edges) = None"
    and "find (blocks_now board_edges) (availableMoves board_edges) = None"
    by code_simp+
  then have w5: "\<not> (\<exists>i. wins_now board_edges i)" and b5: "\<not> (\<exists>i. blocks_now board_edges i)"
    by (simp_all add: some_win some_block)
  have l5: "\<not> legal board_edges 4" and c5: "legal_corners board_edges = []"
    and e5: "legal board_edges 1" and a5: "availableMoves board_edges = [1, 7]"
    by code_simp+
  note p = getBestMove_priority [of "\<lambda>n. n - 1", OF r]
  have m1: "getBestMove (\<lambda>n. n - 1) board_win (availableMoves board_win) = 2"
    unfolding board_win_def
    by (rule p [THEN conjunct2, THEN conjunct2, THEN conjunct2, THEN conjunct2,
          THEN conjunct2, THEN conjunct1]) assumption
  have m2: "getBestMove (\<lambda>n. n - 1) board_block (availableMoves board_block) = 2"
    unfolding board_block_def
    by (rule p [THEN conjunct2, THEN conjunct2, THEN conjunct2, THEN conjunct2,
          THEN conjunct2, THEN conjunct2]) assumption
  have m3: "getBestMove (\<lambda>n. n - 1) board_center (availableMoves board_center) = 4"
    by (rule p [THEN conjunct2, THEN conjunct2, THEN conjunct1, THEN mp], assumption)
      (intro conjI w3 b3 l3)
  have "getBestMove (\<lambda>n. n - 1) board_corners (availableMoves board_corners) =
          legal_corners board_corners ! (length (legal_corners board_corners) - 1)"
    by (rule p [THEN conjunct2, THEN conjunct2, THEN conjunct2, THEN conjunct1, THEN mp,
          THEN conjunct1], assumption) (simp add: w4 b4 l4 c4)
  then have m4: "getBestMove (\<lambda>n. n - 1) board_corners (availableMoves board_corners) = 8"
    by (simp add: c4)
  have "getBestMove (\<lambda>n. n - 1) board_edges (availableMoves board_edges) =
          availableMoves board_edges ! (length (availableMoves board_edges) - 1)"
    by (rule p [THEN conjunct2, THEN conjunct2, THEN conjunct2, THEN conjunct2,
          THEN conjunct1, THEN mp, THEN conjunct1], assumption)
      (intro conjI w5 b5 l5 c5 exI [of _ 1] e5)
  then have m5: "getBestMove (\<lambda>n. n - 1) board_edges (availableMoves board_edges) = 7"
    by (simp add: a5)
  from w1 m1 w2 b2 m2 w3 b3 l3 m3 w4 b4 l4 c4 m4 w5 b5 l5 c5 e5 a5 m5 show ?thesis
    by (intro conjI)
qed

section \<open>The opponent plays O\<close>

lemma makeAIMove_None:
  "makeAIMove g = None \<longleftrightarrow>
     truthyW (winner g) \<or> currentPlayer g = PX \<or> \<not> (\<exists>i. legal (board g) i)"
proof -
  have "availableMoves (board g) = [] \<longleftrightarrow> \<not> (\<exists>i. legal (board g) i)"
    using set_availableMoves [of _ "board g"] by (cases "availableMoves (board g)") auto
  then show ?thesis
    by (simp add: makeAIMove_def Let_def)
qed

lemma makeAIMove_Some:
  "makeAIMove g = Some cb \<Longrightarrow>
     cb rnd = makeMove g (getBestMove rnd (board g) (availableMoves (board g)))"
  by (auto simp: makeAIMove_def Let_def split: if_splits)

text \<open>
  C10: \<open>makeAIMove\<close> returns without scheduling anything whenever a winner is recorded,
  the current player is X, or no cell is empty. The effect calls it only in the mode
  \<^verbatim>\<open>"ai"\<close>, with O to move and no winner recorded. The callback the effect schedules
  writes O, into the cell \<open>getBestMove\<close> chooses on the board of its render, whatever the
  state is when it runs. \<open>getBestMove\<close> itself takes the board and the random source
  only: its simulations place the constants O and X.
\<close>

theorem makeAIMove_plays_O:
  "(truthyW (winner g) \<or> currentPlayer g = PX \<or> \<not> (\<exists>i. legal (board g) i) \<longrightarrow>
      makeAIMove g = None) \<and>
   (useEffect g \<noteq> None \<longrightarrow>
      gameMode g = ai \<and> currentPlayer g = PO \<and> \<not> truthyW (winner g)) \<and>
   (useEffect g = Some cb \<and> (\<forall>n>0. rnd n < n) \<longrightarrow>
      (\<exists>upd. cb rnd = Some upd \<and>
         board (upd prev) =
           (board g)[getBestMove rnd (board g) (availableMoves (board g)) := PO]))"
proof -
  let ?m = "getBestMove rnd (board g) (availableMoves (board g))"
  have a: "makeAIMove g = None"
    if "truthyW (winner g) \<or> currentPlayer g = PX \<or> \<not> (\<exists>i. legal (board g) i)"
    using that by (simp add: makeAIMove_None)
  have b: "gameMode g = ai \<and> currentPlayer g = PO \<and> \<not> truthyW (winner g)"
    if "useEffect g \<noteq> None"
    using that by (auto simp: useEffect_def split: if_splits)
  have c: "\<exists>upd. cb rnd = Some upd \<and> board (upd prev) = (board g)[?m := PO]"
    if e: "useEffect g = Some cb" and rnd: "\<forall>n>0. rnd n < n"
  proof -
    from e b have cp: "currentPlayer g = PO" and nw: "\<not> truthyW (winner g)"
      by simp_all
    from e have mk: "makeAIMove g = Some cb"
      by (auto simp: useEffect_def split: if_splits)
    then have "makeAIMove g \<noteq> None" by simp
    then obtain i where "legal (board g) i"
      by (auto simp: makeAIMove_None)
    from getBestMove_legal_general [OF this] rnd have lm: "legal (board g) ?m"
      by simp
    then have "\<not> truthy (at (board g) ?m)"
      by (simp add: legal_def at_def truthy_def)
    with nw have "makeMove g ?m \<noteq> None"
      by (simp add: makeMove_None)
    then obtain upd where u: "makeMove g ?m = Some upd" by blast
    have "cb rnd = Some upd"
      by (simp add: makeAIMove_Some [OF mk] u)
    moreover have "board (upd prev) = (board g)[?m := PO]"
      by (simp add: makeMove_Some [OF u] cp set_at_legal [OF lm])
    ultimately show ?thesis by blast
  qed
  from a b c show ?thesis by blast
qed

theorem makeAIMove_plays_O_witness:
  "makeAIMove won_by_X = None \<and>
   (\<exists>cb upd. useEffect O_to_move = Some cb \<and> cb (\<lambda>n. n - 1) = Some upd \<and>
      board (upd initialState) = [PX, Null, Null, Null, PO, Null, Null, Null, Null])"
proof -
  have "legal (board O_to_move) 1"
    by (simp add: legal_def O_to_move_def board_center_def)
  then have "\<exists>i. legal (board O_to_move) i" ..
  moreover have "\<not> truthyW (winner O_to_move)" and "currentPlayer O_to_move = PO"
    and "gameMode O_to_move = ai"
    by (simp_all add: O_to_move_def truthyW_def truthy_def)
  ultimately have e: "useEffect O_to_move \<noteq> None"
    by (simp add: useEffect_def makeAIMove_None)
  have "truthyW (winner won_by_X)"
    by (simp add: won_by_X_def truthyW_def truthy_def)
  then have n: "makeAIMove won_by_X = None"
    by (intro makeAIMove_plays_O [of won_by_X, THEN conjunct1, THEN mp] disjI1)
  have m: "getBestMove (\<lambda>n. n - 1) (board O_to_move) (availableMoves (board O_to_move)) = 4"
    by code_simp
  have r: "\<forall>n>0. n - 1 < (n::nat)"
    by simp
  from e obtain cb where that: "useEffect O_to_move = Some cb"
    by blast
  have "\<exists>upd. cb (\<lambda>n. n - 1) = Some upd \<and>
         board (upd initialState) = [PX, Null, Null, Null, PO, Null, Null, Null, Null]"
  proof -
    from that r have "useEffect O_to_move = Some cb \<and> (\<forall>n>0. n - 1 < (n::nat))" ..
    from makeAIMove_plays_O [of O_to_move cb "\<lambda>n. n - 1" initialState,
        THEN conjunct2, THEN conjunct2, THEN mp, OF this]
    obtain upd where u: "cb (\<lambda>n. n - 1) = Some upd"
      and b: "board (upd initialState) =
        (board O_to_move)[getBestMove (\<lambda>n. n - 1) (board O_to_move)
          (availableMoves (board O_to_move)) := PO]"
      by blast
    from b have "board (upd initialState) = [PX, Null, Null, Null, PO, Null, Null, Null, Null]"
      unfolding m by (simp add: O_to_move_def board_center_def)
    with u show ?thesis by blast
  qed
  with that n show ?thesis by blast
qed

section \<open>A deferred move after a reset\<close>

text \<open>
  C6 asks that a move of the opponent scheduled before a reset be dropped. In the
  component it is applied. The user chooses the opponent and clicks cell 0; the effect
  schedules the opponent's move; the user starts a new game, which empties the board and
  leaves the timer pending; the timer fires. Its callback belongs to the render before
  the reset: the guard of that \<open>makeMove\<close> reads the old board and the old winner, so it
  passes, and the updater replaces the board by the old board with O in the center.
\<close>

theorem stale_ai_move_is_applied:
  "board (current (run_events [SwitchMode ai, Click 0, NewGame])) = replicate 9 Null \<and>
   length (timers (run_events [SwitchMode ai, Click 0, NewGame])) = 1 \<and>
   board (current (run_events [SwitchMode ai, Click 0, NewGame, TimerFires (\<lambda>n. 0)])) =
     [PX, Null, Null, Null, PO, Null, Null, Null, Null] \<and>
   board (current (run_events [SwitchMode ai, Click 0, SwitchMode pvp, TimerFires (\<lambda>n. 0)])) =
     [PX, Null, Null, Null, PO, Null, Null, Null, Null]"
  by code_simp

section \<open>A deferred move after the state has moved on\<close>

text \<open>
  C3 asks that every call of \<open>makeMove\<close> on an occupied cell, and every call once a winner
  is recorded, be rejected and leave the state and the scores as they are. The call made
  by the timer is not. The user plays X at 0, 1 and 3 and the opponent answers at 4 and 2;
  with O to move and the timer pending, the user clicks cell 6, which completes the
  diagonal 2, 4, 6 for O: O has won, cell 6 holds O, the score of O is 1, and a further
  click on cell 6 changes nothing. Then the timer fires. Its \<open>makeMove\<close> belongs to the
  render before that click, so its guard reads a board with cell 6 empty and no winner:
  the call on the occupied cell of the finished game is accepted, and the win of O is
  counted a second time.
\<close>

theorem stale_makeMove_accepted_after_win:
  "winner (current (run_events
     [SwitchMode ai, Click 0, TimerFires (\<lambda>n. 0), Click 1, TimerFires (\<lambda>n. 0), Click 3,
      Click 6])) = P PO \<and>
   board (current (run_events
     [SwitchMode ai, Click 0, TimerFires (\<lambda>n. 0), Click 1, TimerFires (\<lambda>n. 0), Click 3,
      Click 6])) = [PX, PX, PO, PX, PO, Null, PO, Null, Null] \<and>
   scores (current (run_events
     [SwitchMode ai, Click 0, TimerFires (\<lambda>n. 0), Click 1, TimerFires (\<lambda>n. 0), Click 3,
      Click 6])) = \<lparr>scoreX = 0, scoreO = 1, ties = 0\<rparr> \<and>
   current (run_events
     [SwitchMode ai, Click 0, TimerFires (\<lambda>n. 0), Click 1, TimerFires (\<lambda>n. 0), Click 3,
      Click 6, Click 6]) =
   current (run_events
     [SwitchMode ai, Click 0, TimerFires (\<lambda>n. 0), Click 1, TimerFires (\<lambda>n. 0), Click 3,
      Click 6]) \<and>
   length (timers (run_events
     [SwitchMode ai, Click 0, TimerFires (\<lambda>n. 0), Click 1, TimerFires (\<lambda>n. 0), Click 3,
      Click 6])) = 1 \<and>
   scores (current (run_events
     [SwitchMode ai, Click 0, TimerFires (\<lambda>n. 0), Click 1, TimerFires (\<lambda>n. 0), Click 3,
      Click 6, TimerFires (\<lambda>n. 0)])) = \<lparr>scoreX = 0, scoreO = 2, ties = 0\<rparr>"
  by code_simp

text \<open>
  C5 asks that an accepted move that leaves the game in progress flip the current player,
  and that one that ends the game leave the mover as current player. The updater takes
  the next player from the render of its \<open>makeMove\<close> and the current player of a finished
  game from the state it is applied to, and for the call made by the timer the two differ.
  First run: with O to move and the timer pending the user clicks cell 1, which places O
  and makes X the current player; the timer's move is accepted, places O at 4 on the
  board of its own render, leaves the game in progress, and X is the current player
  before and after it. Second run: with O to move, a win for O open at cell 6 and the
  timer pending, the user starts a new game, which makes X the current player; the
  timer's move places O at 6 and ends the game in favour of O, and the current player is
  X, not the mover.
\<close>

theorem stale_makeMove_turn:
  "currentPlayer (current (run_events [SwitchMode ai, Click 0, Click 1])) = PX \<and>
   board (current (run_events [SwitchMode ai, Click 0, Click 1])) =
     [PX, PO, Null, Null, Null, Null, Null, Null, Null] \<and>
   board (current (run_events [SwitchMode ai, Click 0, Click 1, TimerFires (\<lambda>n. 0)])) =
     [PX, Null, Null, Null, PO, Null, Null, Null, Null] \<and>
   winner (current (run_events [SwitchMode ai, Click 0, Click 1, TimerFires (\<lambda>n. 0)])) =
     P Null \<and>
   currentPlayer (current (run_events [SwitchMode ai, Click 0, Click 1, TimerFires (\<lambda>n. 0)])) =
     PX \<and>
   currentPlayer (current (run_events
     [SwitchMode ai, Click 0, TimerFires (\<lambda>n. 0), Click 1, TimerFires (\<lambda>n. 0), Click 3,
      NewGame])) = PX \<and>
   board (current (run_events
     [SwitchMode ai, Click 0, TimerFires (\<lambda>n. 0), Click 1, TimerFires (\<lambda>n. 0), Click 3,
      NewGame, TimerFires (\<lambda>n. 0)])) = [PX, PX, PO, PX, PO, Null, PO, Null, Null] \<and>
   winner (current (run_events
     [SwitchMode ai, Click 0, TimerFires (\<lambda>n. 0), Click 1, TimerFires (\<lambda>n. 0), Click 3,
      NewGame, TimerFires (\<lambda>n. 0)])) = P PO \<and>
   currentPlayer (current (run_events
     [SwitchMode ai, Click 0, TimerFires (\<lambda>n. 0), Click 1, TimerFires (\<lambda>n. 0), Click 3,
      NewGame, TimerFires (\<lambda>n. 0)])) = PX"
  by code_simp

end
